theory Spec2Isabelle
  imports Complex_Main "HOL-Library.AList"
begin

section \<open>Data model of \<^verbatim>\<open>certstream/webserver.py\<close>\<close>

text \<open>
  Python values that travel through the server. A dict is an association list in
  insertion order. A float (the reading of \<^verbatim>\<open>time.time()\<close>) is kept as the
  rational it denotes; the code does no float arithmetic besides \<^verbatim>\<open>int(...)\<close>.
\<close>

datatype json =
    JNull
  | JBool bool
  | JInt int
  | JFloat rat
  | JStr string
  | JList "json list"
  | JDict "(string \<times> json) list"

text \<open>
  The result of \<^verbatim>\<open>json.dumps(obj)\<close> (no indent) or \<^verbatim>\<open>json.dumps(obj, indent=4)\<close>
  is kept as the value that was serialised together with the indent; a string
  literal body stays a string.
\<close>

datatype str = Literal string | Json_dumps json "nat option"

datatype exc =
    HTTPBadRequest string
  | ValueError
  | CancelledError
  | TransportError string

text \<open>
  \<^verbatim>\<open>WebsocketClientInfo\<close>. The field \<open>queue\<close> is the reference of the connection's
  \<^verbatim>\<open>asyncio.Queue\<close> object; two queue objects are equal only when they are the same
  object, so equality of two tuples compares the references.
\<close>

record WebsocketClientInfo =
  external_ip :: string
  queue :: nat
  connection_time :: int
  channel :: string

text \<open>What a handler did to the websocket of a connection, in order.\<close>

datatype ws_action = Send_str str | Close

text \<open>
  The \<^verbatim>\<open>WebServer\<close> object with the objects it shares with its coroutines:
  \<open>queues r\<close> is the content of the queue object \<open>r\<close>, oldest item first;
  \<open>sockets r\<close> is what has been done to the websocket of the connection whose
  queue is \<open>r\<close> (a connection allocates one websocket and one queue, both addressed by
  the connection's reference); \<open>next_ref\<close> is the next unused reference.
\<close>

record WebServer =
  active_sockets :: "WebsocketClientInfo list"
  recently_seen :: "json list"
  queues :: "nat \<Rightarrow> json list"
  sockets :: "nat \<Rightarrow> ws_action list"
  next_ref :: nat

definition valid_channels :: "string list" where
  "valid_channels = [''default'', ''dns-only'', ''leaf-only'']"

definition maxlen :: nat where
  "maxlen = 25"

text \<open>\<^verbatim>\<open>WebServer.__init__\<close>: no sockets, an empty deque.\<close>

definition init :: WebServer where
  "init = \<lparr>active_sockets = [], recently_seen = [], queues = (\<lambda>_. []),
           sockets = (\<lambda>_. []), next_ref = 0\<rparr>"

subsection \<open>Library operations the code calls\<close>

text \<open>
  \<^verbatim>\<open>collections.deque(maxlen=n).append(x)\<close>: the item goes to the right end; when the
  deque then holds more than \<open>n\<close> items the leftmost one is dropped.
\<close>

definition deque_append :: "nat \<Rightarrow> 'a list \<Rightarrow> 'a \<Rightarrow> 'a list" where
  "deque_append n d x = (let d' = d @ [x] in if n < length d' then tl d' else d')"

text \<open>
  \<^verbatim>\<open>list.remove(x)\<close>: drops the first element equal to \<open>x\<close>; raises
  \<^verbatim>\<open>ValueError\<close> when there is none.
\<close>

fun list_remove :: "'a list \<Rightarrow> 'a \<Rightarrow> exc + 'a list" where
  "list_remove [] x = Inl ValueError"
| "list_remove (y # ys) x =
     (if y = x then Inr ys
      else (case list_remove ys x of Inl e \<Rightarrow> Inl e | Inr zs \<Rightarrow> Inr (y # zs)))"

text \<open>
  \<^verbatim>\<open>await q.put(item)\<close> on an \<^verbatim>\<open>asyncio.Queue()\<close> without a size limit: the queue is
  never full, so the call appends and returns without suspending.
\<close>

definition queue_put :: "nat \<Rightarrow> json \<Rightarrow> WebServer \<Rightarrow> WebServer" where
  "queue_put r item st = st\<lparr>queues := (queues st)(r := queues st r @ [item])\<rparr>"

subsection \<open>The multiplexer and the heartbeat generator\<close>

definition data_packet :: "json \<Rightarrow> json" where
  "data_packet cert_data =
     JDict [(''message_type'', JStr ''certificate_update''), (''data'', cert_data)]"

definition heartbeat :: "rat \<Rightarrow> json" where
  "heartbeat timestamp =
     JDict [(''message_type'', JStr ''heartbeat''), (''timestamp'', JFloat timestamp)]"

fun message_type :: "json \<Rightarrow> json option" where
  "message_type (JDict kvs) = map_of kvs ''message_type''"
| "message_type _ = None"

text \<open>
  \<^verbatim>\<open>for client in self.active_sockets: await client.queue.put(item)\<close>.
  A Python \<^verbatim>\<open>for\<close> over a list keeps a cursor into the list object itself: before
  each round it compares the cursor with the list's current length and reads the
  element at the cursor. \<open>for_client_step\<close> is one round; \<open>None\<close> is the end of the loop.
\<close>

definition for_client_step :: "json \<Rightarrow> nat \<times> WebServer \<Rightarrow> (nat \<times> WebServer) option" where
  "for_client_step item = (\<lambda>(i, st).
     if i < length (active_sockets st)
     then Some (Suc i, queue_put (queue (active_sockets st ! i)) item st)
     else None)"

text \<open>
  The whole loop, run without another task in between: \<open>put\<close> does not suspend, so
  the rounds follow each other directly.
\<close>

function for_client_put :: "json \<Rightarrow> nat \<Rightarrow> WebServer \<Rightarrow> WebServer" where
  "for_client_put item i st =
     (case for_client_step item (i, st) of
        None \<Rightarrow> st
      | Some (i', st') \<Rightarrow> for_client_put item i' st')"
  by pat_completeness auto
termination
  by (relation "measure (\<lambda>(item, i, st). length (active_sockets st) - i)")
     (auto simp: for_client_step_def queue_put_def split: if_splits)

declare for_client_put.simps [simp del]

text \<open>One round of \<^verbatim>\<open>mux_ctl_stream\<close>'s \<^verbatim>\<open>while True\<close>, for the record pulled from the feed.\<close>

definition mux_ctl_stream_round :: "json \<Rightarrow> WebServer \<Rightarrow> WebServer" where
  "mux_ctl_stream_round cert_data st =
     (let packet = data_packet cert_data;
          st1 = st\<lparr>recently_seen := deque_append maxlen (recently_seen st) packet\<rparr>
      in for_client_put packet 0 st1)"

text \<open>One round of \<^verbatim>\<open>ws_heartbeats\<close>' \<^verbatim>\<open>while True\<close>, after the sleep; \<open>timestamp\<close> is the clock reading.\<close>

definition ws_heartbeats_round :: "rat \<Rightarrow> WebServer \<Rightarrow> WebServer" where
  "ws_heartbeats_round timestamp st = for_client_put (heartbeat timestamp) 0 st"

subsection \<open>The websocket handler\<close>

record request =
  headers :: "string \<rightharpoonup> string"
  GET :: "string \<rightharpoonup> string"
  match_info :: "string \<rightharpoonup> string"

record response =
  body :: str
  resp_headers :: "(string \<times> string) list"
  content_type :: string

datatype result = Websocket nat | Response response | Static request

text \<open>Truth value of \<^verbatim>\<open>d.get(key)\<close>: a missing key gives \<^verbatim>\<open>None\<close>, which is false, as is the empty string.\<close>

definition truthy :: "string option \<Rightarrow> bool" where
  "truthy v = (case v of None \<Rightarrow> False | Some s \<Rightarrow> s \<noteq> [])"

text \<open>\<^verbatim>\<open>int(x)\<close> of a float: truncation towards zero.\<close>

definition py_int :: "rat \<Rightarrow> int" where
  "py_int x = (if 0 \<le> x then \<lfloor>x\<rfloor> else \<lceil>x\<rceil>)"

text \<open>
  \<^verbatim>\<open>root_handler\<close> up to the \<^verbatim>\<open>try\<close> (lines 105-126 and 141-144). \<open>get_ip\<close> is
  \<^verbatim>\<open>certstream.util.get_ip\<close>, \<open>now\<close> the reading of \<^verbatim>\<open>time.time()\<close>, \<open>prepare\<close> the
  exception \<^verbatim>\<open>ws.prepare(request)\<close> raises, if any. \<open>Inr (Inl info)\<close>: the handler has
  registered \<open>info\<close> and enters its loop; \<open>Inr (Inr r)\<close>: it has returned \<open>r\<close>.
\<close>

definition root_handler_open ::
  "(request \<Rightarrow> string) \<Rightarrow> rat \<Rightarrow> exc option \<Rightarrow> request \<Rightarrow> string option \<Rightarrow> WebServer
   \<Rightarrow> (exc + WebsocketClientInfo + result) \<times> WebServer" where
  "root_handler_open get_ip now prepare request filename st =
     (if truthy (headers request ''Upgrade'') then
        (let requested_channel =
               (case GET request ''channel'' of None \<Rightarrow> ''default'' | Some c \<Rightarrow> c)
         in if requested_channel \<notin> set valid_channels
            then (Inl (HTTPBadRequest ''Invalid channel!''), st)
            else (case prepare of
                    Some e \<Rightarrow> (Inl e, st)
                  | None \<Rightarrow>
                      (let client_queue = next_ref st;
                           websocket_info = \<lparr>external_ip = get_ip request,
                                             queue = client_queue,
                                             connection_time = py_int now,
                                             channel = requested_channel\<rparr>
                       in (Inr (Inl websocket_info),
                           st\<lparr>active_sockets := active_sockets st @ [websocket_info],
                              queues := (queues st)(client_queue := []),
                              sockets := (sockets st)(client_queue := []),
                              next_ref := Suc (next_ref st)\<rparr>))))
      else (if \<not> truthy filename
            then (Inr (Inr (Static (request\<lparr>match_info :=
                                 (match_info request)(''filename'' \<mapsto> ''index.html'')\<rparr>))), st)
            else (Inr (Inr (Static request)), st)))"

text \<open>
  One round of the handler's \<^verbatim>\<open>while True\<close> (lines 129-132) that goes through:
  \<^verbatim>\<open>get()\<close> takes the oldest item of the queue, \<^verbatim>\<open>send_str\<close> writes its serialisation.
  \<open>None\<close>: the queue is empty and \<^verbatim>\<open>get()\<close> waits.
\<close>

definition root_handler_round :: "WebsocketClientInfo \<Rightarrow> WebServer \<Rightarrow> WebServer option" where
  "root_handler_round info st =
     (case queues st (queue info) of
        [] \<Rightarrow> None
      | message # rest \<Rightarrow>
          Some (st\<lparr>queues := (queues st)(queue info := rest),
                   sockets := (sockets st)(queue info :=
                      sockets st (queue info) @ [Send_str (Json_dumps message None)])\<rparr>))"

text \<open>
  The way out of the loop (lines 133-140). The loop has no \<^verbatim>\<open>break\<close>: it ends when an
  exception \<open>raised\<close> comes out of \<^verbatim>\<open>get()\<close> or \<^verbatim>\<open>send_str\<close> (a
  \<^verbatim>\<open>CancelledError\<close> thrown into the waiting coroutine, or an error of the write).
  \<^verbatim>\<open>except asyncio.CancelledError\<close> catches the first kind only; \<^verbatim>\<open>finally\<close> runs in
  both cases; an exception that \<^verbatim>\<open>finally\<close> does not catch goes on to the caller, past
  \<^verbatim>\<open>ws.close()\<close>. \<open>close_raises\<close> is the exception \<^verbatim>\<open>ws.close()\<close> raises, if any.
\<close>

definition root_handler_finish ::
  "exc \<Rightarrow> exc option \<Rightarrow> WebsocketClientInfo \<Rightarrow> WebServer \<Rightarrow> (exc + result) \<times> WebServer" where
  "root_handler_finish raised close_raises info st =
     (case list_remove (active_sockets st) info of
        Inl e \<Rightarrow> (Inl e, st)
      | Inr rest \<Rightarrow>
          (let st1 = st\<lparr>active_sockets := rest\<rparr>
           in if raised = CancelledError
              then (let st2 = st1\<lparr>sockets := (sockets st1)(queue info :=
                                       sockets st1 (queue info) @ [Close])\<rparr>
                    in case close_raises of
                         None \<Rightarrow> (Inr (Websocket (queue info)), st2)
                       | Some e \<Rightarrow> (Inl e, st2))
              else (Inl raised, st1)))"

subsection \<open>The read-only endpoints\<close>

definition latest_json_handler :: "WebServer \<Rightarrow> response" where
  "latest_json_handler st =
     \<lparr>body = Json_dumps (JDict [(''messages'', JList (recently_seen st))]) (Some 4),
      resp_headers = [(''Access-Control-Allow-Origin'', ''http://localhost:8080'')],
      content_type = ''application/json''\<rparr>"

definition example_json_handler :: "WebServer \<Rightarrow> response" where
  "example_json_handler st =
     (if recently_seen st \<noteq> []
      then \<lparr>body = Json_dumps (recently_seen st ! 0) (Some 4),
            resp_headers = [(''Access-Control-Allow-Origin'', ''http://localhost:8080'')],
            content_type = ''application/json''\<rparr>
      else \<lparr>body = Literal ''{}'',
            resp_headers = [(''Access-Control-Allow-Origin'', ''http://localhost:8080'')],
            content_type = ''application/json''\<rparr>)"

text \<open>\<^verbatim>\<open>"{}".format(n)\<close> for an integer: its decimal digits, with a sign when negative.\<close>

definition digit :: "nat \<Rightarrow> char" where
  "digit d = char_of (48 + d)"

function str_nat :: "nat \<Rightarrow> string" where
  "str_nat n = (if n < 10 then [digit n] else str_nat (n div 10) @ [digit (n mod 10)])"
  by pat_completeness auto
termination
  by (relation "measure id") auto

declare str_nat.simps [simp del]

definition str_int :: "int \<Rightarrow> string" where
  "str_int i = (if i < 0 then CHR ''-'' # str_nat (nat (- i)) else str_nat (nat i))"

definition client_identifier :: "WebsocketClientInfo \<Rightarrow> string" where
  "client_identifier client = external_ip client @ ''-'' @ str_int (connection_time client)"

text \<open>
  \<^verbatim>\<open>stats_handler\<close>. \<open>pretty_date\<close> is \<^verbatim>\<open>certstream.util.pretty_date\<close>.
  \<^verbatim>\<open>clients[key] = value\<close> replaces the value of a key the dict has, and adds the
  key at the end otherwise.
\<close>

definition stats_clients ::
  "(int \<Rightarrow> string) \<Rightarrow> WebsocketClientInfo list \<Rightarrow> (string \<times> json) list" where
  "stats_clients pretty_date cs =
     foldl (\<lambda>clients client.
              AList.update (client_identifier client)
                (JDict [(''ip_address'', JStr (external_ip client)),
                        (''conection_time'', JInt (connection_time client)),
                        (''connection_length'', JStr (pretty_date (connection_time client))),
                        (''channel'', JStr (channel client))])
                clients)
           [] cs"

definition stats_handler :: "(int \<Rightarrow> string) \<Rightarrow> WebServer \<Rightarrow> response" where
  "stats_handler pretty_date st =
     \<lparr>body = Json_dumps
               (JDict [(''connected_client_count'', JInt (int (length (active_sockets st)))),
                       (''clients'', JDict (stats_clients pretty_date (active_sockets st)))])
               (Some 4),
      resp_headers = [],
      content_type = ''application/json''\<rparr>"

subsection \<open>The tasks, interleaved\<close>

text \<open>
  The event loop runs one task at a time, from one suspension point to the next. An
  event is one such stretch: the multiplexer gets a record from the feed and runs its
  round; the heartbeat generator wakes up and runs its round; a websocket request comes
  in and its handler runs up to its first \<^verbatim>\<open>get()\<close>; the handler of \<open>info\<close> runs one
  round of its loop; or an exception ends that loop. A handler is inside its loop
  exactly while its \<open>info\<close> is in \<open>active_sockets\<close>, so the last two do nothing for an
  \<open>info\<close> that is not registered.
\<close>

datatype event =
    Feed json
  | Beat rat
  | Connect request rat "exc option"
  | Deliver WebsocketClientInfo
  | Stop WebsocketClientInfo exc "exc option"

fun step :: "(request \<Rightarrow> string) \<Rightarrow> event \<Rightarrow> WebServer \<Rightarrow> WebServer" where
  "step get_ip (Feed cert_data) st = mux_ctl_stream_round cert_data st"
| "step get_ip (Beat timestamp) st = ws_heartbeats_round timestamp st"
| "step get_ip (Connect request now prepare) st =
     snd (root_handler_open get_ip now prepare request None st)"
| "step get_ip (Deliver info) st =
     (if info \<in> set (active_sockets st)
      then (case root_handler_round info st of None \<Rightarrow> st | Some st' \<Rightarrow> st')
      else st)"
| "step get_ip (Stop info raised close_raises) st =
     (if info \<in> set (active_sockets st)
      then snd (root_handler_finish raised close_raises info st)
      else st)"

definition run :: "(request \<Rightarrow> string) \<Rightarrow> event list \<Rightarrow> WebServer \<Rightarrow> WebServer" where
  "run get_ip evs st = foldl (\<lambda>s ev. step get_ip ev s) st evs"

text \<open>
  \<^verbatim>\<open>ws_heartbeats\<close> on a virtual clock: \<^verbatim>\<open>asyncio.sleep(10)\<close> moves the clock from
  \<open>now\<close> to \<open>now + 10\<close>, the round itself takes no time. While the generator sleeps
  the other tasks run: \<open>others now\<close> is what they do during the sleep that starts at
  the time \<open>now\<close>. The loop never ends; this is its run up to the time \<open>horizon\<close>,
  which cuts the last sleep short.
\<close>

function ws_heartbeats ::
  "(request \<Rightarrow> string) \<Rightarrow> (rat \<Rightarrow> event list) \<Rightarrow> rat \<Rightarrow> rat \<Rightarrow> WebServer \<Rightarrow> WebServer" where
  "ws_heartbeats get_ip others horizon now st =
     (if now + 10 \<le> horizon
      then ws_heartbeats get_ip others horizon (now + 10)
             (ws_heartbeats_round (now + 10) (run get_ip (others now) st))
      else run get_ip (others now) st)"
  by pat_completeness auto
termination
proof (relation "measure (\<lambda>(get_ip, others, horizon, now, st). nat \<lceil>horizon - now\<rceil>)")
  show "wf (measure (\<lambda>(get_ip, others, horizon, now, st). nat \<lceil>horizon - now\<rceil>))"
    by simp
next
  fix get_ip :: "request \<Rightarrow> string" and others :: "rat \<Rightarrow> event list"
    and horizon now :: rat and st :: WebServer
  assume le: "now + 10 \<le> horizon"
  have "\<lceil>horizon - (now + 10)\<rceil> = \<lceil>horizon - now\<rceil> - 10"
    by (simp add: algebra_simps ceiling_diff_numeral [symmetric])
  moreover from le have "10 \<le> \<lceil>horizon - now\<rceil>"
    by (simp add: le_ceiling_iff)
  ultimately show "((get_ip, others, horizon, now + 10,
        ws_heartbeats_round (now + 10) (run get_ip (others now) st)),
       (get_ip, others, horizon, now, st))
      \<in> measure (\<lambda>(get_ip, others, horizon, now, st). nat \<lceil>horizon - now\<rceil>)"
    by simp
qed

declare ws_heartbeats.simps [simp del]

text \<open>
  What holds of every state the server reaches: the registered tuples have different
  queues, all allocated before.
\<close>

definition wf_server :: "WebServer \<Rightarrow> bool" where
  "wf_server st \<longleftrightarrow>
     distinct (map queue (active_sockets st)) \<and>
     list_all (\<lambda>c. queue c < next_ref st) (active_sockets st)"

subsection \<open>Auxiliary notions for the proofs\<close>





text \<open>
  The item put on the queue of each tuple of a fixed list, from left to right.
\<close>

definition put_all :: "json \<Rightarrow> WebsocketClientInfo list \<Rightarrow> WebServer \<Rightarrow> WebServer" where
  "put_all item cs st = foldl (\<lambda>s c. queue_put (queue c) item s) st cs"

text \<open>The records the feed delivered during a run, in order.\<close>

fun fed :: "event list \<Rightarrow> json list" where
  "fed [] = []"
| "fed (Feed cert_data # evs) = cert_data # fed evs"
| "fed (_ # evs) = fed evs"

text \<open>The packets the multiplexer and the heartbeat generator made during a run, in order.\<close>

fun broadcast :: "event list \<Rightarrow> json list" where
  "broadcast [] = []"
| "broadcast (Feed cert_data # evs) = data_packet cert_data # broadcast evs"
| "broadcast (Beat timestamp # evs) = heartbeat timestamp # broadcast evs"
| "broadcast (_ # evs) = broadcast evs"

text \<open>What \<^verbatim>\<open>ws.send_str(json.dumps(message))\<close> leaves on the websocket.\<close>

definition wire :: "json \<Rightarrow> ws_action" where
  "wire message = Send_str (Json_dumps message None)"

definition is_update :: "json \<Rightarrow> bool" where
  "is_update packet \<longleftrightarrow> message_type packet = Some (JStr ''certificate_update'')"

definition is_heartbeat :: "json \<Rightarrow> bool" where
  "is_heartbeat packet \<longleftrightarrow> message_type packet = Some (JStr ''heartbeat'')"

text \<open>The packets written to a websocket, in the order of the writes.\<close>

fun sent_packets :: "ws_action list \<Rightarrow> json list" where
  "sent_packets [] = []"
| "sent_packets (Send_str (Json_dumps message None) # acts) = message # sent_packets acts"
| "sent_packets (_ # acts) = sent_packets acts"

text \<open>The \<^verbatim>\<open>certificate_update\<close> packets written to a websocket, in the order of the writes.\<close>

fun sent_updates :: "ws_action list \<Rightarrow> json list" where
  "sent_updates [] = []"
| "sent_updates (Send_str (Json_dumps message None) # acts) =
     (if is_update message then message # sent_updates acts else sent_updates acts)"
| "sent_updates (_ # acts) = sent_updates acts"

subsection \<open>Sample values\<close>

text \<open>A websocket request with the given \<^verbatim>\<open>channel\<close> parameter, and the tuples of two clients
  that connect from the same address within the same second.\<close>

definition ws_request :: "string option \<Rightarrow> request" where
  "ws_request tag =
     \<lparr>headers = [''Upgrade'' \<mapsto> ''websocket''],
      GET = (case tag of None \<Rightarrow> Map.empty | Some t \<Rightarrow> [''channel'' \<mapsto> t]),
      match_info = Map.empty\<rparr>"

definition client_a :: WebsocketClientInfo where
  "client_a = \<lparr>external_ip = ''10.0.0.1'', queue = 0, connection_time = 1000,
                channel = ''default''\<rparr>"

definition client_b :: WebsocketClientInfo where
  "client_b = \<lparr>external_ip = ''10.0.0.1'', queue = 1, connection_time = 1000,
                channel = ''dns-only''\<rparr>"

definition sample_ip :: "request \<Rightarrow> string" where
  "sample_ip request = ''10.0.0.1''"

text \<open>
  What the other tasks do while the heartbeat generator sleeps, in a server without
  upstream records: the handler of the first client takes what is on its queue and
  writes it; or nothing at all.
\<close>

definition handler_runs :: "rat \<Rightarrow> event list" where
  "handler_runs now = [Deliver client_a]"

definition idle :: "rat \<Rightarrow> event list" where
  "idle now = []"

text \<open>The server after the first of them has connected.\<close>

definition one_client :: WebServer where
  "one_client = run sample_ip [Connect (ws_request None) 1000 None] init"

text \<open>The server after these two clients have connected.\<close>

definition two_clients :: WebServer where
  "two_clients =
     run sample_ip [Connect (ws_request None) 1000 None,
                    Connect (ws_request (Some ''dns-only'')) 1000 None] init"

section \<open>Basic facts\<close>

lemma deque_append_length: "length d \<le> n \<Longrightarrow> length (deque_append n d x) \<le> n"
  by (simp add: deque_append_def Let_def)

lemma deque_append_drop:
  "deque_append n (drop (length xs - n) xs) x = drop (length (xs @ [x]) - n) (xs @ [x])"
proof (cases "length xs < n")
  case True
  then show ?thesis by (simp add: deque_append_def Let_def)
next
  case False
  define k where "k = length xs - n"
  have suc: "Suc (length xs) - n = Suc k"
    using False by (simp add: k_def)
  show ?thesis
  proof (cases "n = 0")
    case True
    then show ?thesis by (simp add: deque_append_def Let_def)
  next
    case n: False
    with False have lt: "k < length xs" by (simp add: k_def)
    then have ne: "drop k xs \<noteq> []" by simp
    have len: "n < length (drop k xs @ [x])"
      using False by (simp add: k_def)
    have "tl (drop k xs @ [x]) = drop (Suc k) xs @ [x]"
      using ne by (simp add: drop_Suc tl_drop)
    moreover have "drop (Suc k) (xs @ [x]) = drop (Suc k) xs @ [x]"
      using lt by simp
    ultimately show ?thesis
      using len suc by (simp add: deque_append_def Let_def k_def [symmetric])
  qed
qed

lemma active_sockets_queue_put [simp]: "active_sockets (queue_put r item st) = active_sockets st"
  and recently_seen_queue_put [simp]: "recently_seen (queue_put r item st) = recently_seen st"
  and sockets_queue_put [simp]: "sockets (queue_put r item st) = sockets st"
  and next_ref_queue_put [simp]: "next_ref (queue_put r item st) = next_ref st"
  and queues_queue_put: "queues (queue_put r item st) q = (if q = r then queues st q @ [item] else queues st q)"
  by (simp_all add: queue_put_def)

lemma put_all_Nil [simp]: "put_all item [] st = st"
  and put_all_Cons [simp]: "put_all item (c # cs) st = put_all item cs (queue_put (queue c) item st)"
  by (simp_all add: put_all_def)

lemma put_all_fields [simp]:
  "active_sockets (put_all item cs st) = active_sockets st"
  "recently_seen (put_all item cs st) = recently_seen st"
  "sockets (put_all item cs st) = sockets st"
  "next_ref (put_all item cs st) = next_ref st"
  by (induction cs arbitrary: st) simp_all

lemma queues_put_all:
  "queues (put_all item cs st) q = queues st q @ replicate (count_list (map queue cs) q) item"
  by (induction cs arbitrary: st) (auto simp: queues_queue_put replicate_app_Cons_same)

lemma for_client_put_drop:
  "for_client_put item i st = put_all item (drop i (active_sockets st)) st"
proof (induction item i st rule: for_client_put.induct)
  case (1 item i st)
  show ?case
  proof (cases "i < length (active_sockets st)")
    case True
    then have "for_client_put item i st =
        for_client_put item (Suc i) (queue_put (queue (active_sockets st ! i)) item st)"
      by (subst for_client_put.simps) (simp add: for_client_step_def)
    also have "\<dots> = put_all item (drop (Suc i) (active_sockets st))
        (queue_put (queue (active_sockets st ! i)) item st)"
      using True "1.IH" [of "(Suc i, queue_put (queue (active_sockets st ! i)) item st)" "Suc i"
          "queue_put (queue (active_sockets st ! i)) item st"]
      by (simp add: for_client_step_def)
    also have "\<dots> = put_all item (drop i (active_sockets st)) st"
      using True by (simp add: Cons_nth_drop_Suc [symmetric])
    finally show ?thesis .
  next
    case False
    then show ?thesis
      by (subst for_client_put.simps) (simp add: for_client_step_def)
  qed
qed

lemma for_client_put_all: "for_client_put item 0 st = put_all item (active_sockets st) st"
  using for_client_put_drop [of item 0 st] by simp

lemma fed_append [simp]: "fed (evs @ evs') = fed evs @ fed evs'"
  by (induction evs rule: fed.induct) simp_all

lemma recently_seen_mux [simp]:
  "recently_seen (mux_ctl_stream_round cert_data st) =
     deque_append maxlen (recently_seen st) (data_packet cert_data)"
  by (simp add: mux_ctl_stream_round_def Let_def for_client_put_all)

lemma recently_seen_beat [simp]:
  "recently_seen (ws_heartbeats_round timestamp st) = recently_seen st"
  by (simp add: ws_heartbeats_round_def for_client_put_all)

lemma recently_seen_open [simp]:
  "recently_seen (snd (root_handler_open get_ip now prepare request filename st)) = recently_seen st"
  by (simp add: root_handler_open_def Let_def split: option.splits)

lemma recently_seen_round:
  "root_handler_round info st = Some st' \<Longrightarrow> recently_seen st' = recently_seen st"
  by (auto simp: root_handler_round_def split: list.splits)

lemma recently_seen_finish [simp]:
  "recently_seen (snd (root_handler_finish raised close_raises info st)) = recently_seen st"
  by (simp add: root_handler_finish_def Let_def split: sum.splits option.splits)

lemma recently_seen_step:
  "recently_seen (step get_ip ev st) =
     (case ev of Feed cert_data \<Rightarrow> deque_append maxlen (recently_seen st) (data_packet cert_data)
      | _ \<Rightarrow> recently_seen st)"
  by (cases ev) (auto simp: recently_seen_round split: option.splits)

lemma run_Nil [simp]: "run get_ip [] st = st"
  and run_Cons [simp]: "run get_ip (ev # evs) st = run get_ip evs (step get_ip ev st)"
  and run_append: "run get_ip (evs @ evs') st = run get_ip evs' (run get_ip evs st)"
  by (simp_all add: run_def)

lemma run_snoc: "run get_ip (evs @ [ev]) st = step get_ip ev (run get_ip evs st)"
  by (simp add: run_append)

lemma recently_seen_step_other:
  "fed [ev] = [] \<Longrightarrow> recently_seen (step get_ip ev st) = recently_seen st"
  by (cases ev) (auto simp: recently_seen_round split: option.splits)

lemma recently_seen_run:
  "recently_seen (run get_ip evs init) =
     drop (length (fed evs) - maxlen) (map data_packet (fed evs))"
proof (induction evs rule: rev_induct)
  case Nil
  show ?case by (simp add: init_def)
next
  case (snoc ev evs)
  show ?case
  proof (cases "fed [ev] = []")
    case True
    have "recently_seen (run get_ip (evs @ [ev]) init) = recently_seen (run get_ip evs init)"
      by (simp only: run_snoc recently_seen_step_other [OF True])
    moreover have "fed (evs @ [ev]) = fed evs"
      using True by simp
    ultimately show ?thesis
      using snoc.IH by simp
  next
    case False
    then obtain cert_data where Feed: "ev = Feed cert_data"
      by (cases ev) auto
    have "recently_seen (run get_ip (evs @ [ev]) init) =
        deque_append maxlen (drop (length (map data_packet (fed evs)) - maxlen)
          (map data_packet (fed evs))) (data_packet cert_data)"
      using snoc.IH Feed by (simp add: run_snoc)
    also have "\<dots> = drop (length (map data_packet (fed evs) @ [data_packet cert_data]) - maxlen)
        (map data_packet (fed evs) @ [data_packet cert_data])"
      by (rule deque_append_drop)
    finally show ?thesis using Feed by simp
  qed
qed

lemma list_remove_remove1:
  "list_remove xs x = (if x \<in> set xs then Inr (remove1 x xs) else Inl ValueError)"
  by (induction xs) auto

lemma wf_server_distinct: "wf_server st \<Longrightarrow> distinct (active_sockets st)"
  by (auto simp: wf_server_def distinct_map)

lemma update_fold_keys:
  "distinct (map fst al) \<Longrightarrow>
   distinct (map fst (foldl (\<lambda>clients client. AList.update (k client) (v client) clients) al cs)) \<and>
   fst ` set (foldl (\<lambda>clients client. AList.update (k client) (v client) clients) al cs) =
     fst ` set al \<union> k ` set cs"
proof (induction cs arbitrary: al)
  case Nil
  then show ?case by simp
next
  case (Cons c cs)
  have "distinct (map fst (AList.update (k c) (v c) al))"
    using Cons.prems by (simp add: distinct_update)
  from Cons.IH [OF this] show ?case
    by (auto simp: dom_update)
qed

lemma stats_clients_keys:
  "distinct (map fst (stats_clients pretty_date cs))"
  "fst ` set (stats_clients pretty_date cs) = client_identifier ` set cs"
  by (simp_all add: stats_clients_def update_fold_keys)

lemma length_stats_clients:
  "length (stats_clients pretty_date cs) = card (client_identifier ` set cs)"
proof -
  have "length (stats_clients pretty_date cs) = length (map fst (stats_clients pretty_date cs))"
    by simp
  also have "\<dots> = card (set (map fst (stats_clients pretty_date cs)))"
    using stats_clients_keys(1) [of pretty_date cs] by (simp only: distinct_card)
  also have "\<dots> = card (client_identifier ` set cs)"
    using stats_clients_keys(2) [of pretty_date cs] by simp
  finally show ?thesis .
qed

lemma stats_two_clients:
  "stats_clients (\<lambda>_. ''just now'') [client_a, client_b] =
     [(''10.0.0.1-1000'', JDict [(''ip_address'', JStr ''10.0.0.1''),
                        (''conection_time'', JInt 1000),
                        (''connection_length'', JStr ''just now''),
                        (''channel'', JStr ''dns-only'')])]"
  by code_simp

lemma queues_put_all_distinct:
  "distinct (map queue cs) \<Longrightarrow>
   queues (put_all item cs st) r =
     (if r \<in> queue ` set cs then queues st r @ [item] else queues st r)"
  by (induction cs arbitrary: st) (auto simp: queues_queue_put)

lemma for_client_put_fields [simp]:
  "active_sockets (for_client_put item 0 st) = active_sockets st"
  "recently_seen (for_client_put item 0 st) = recently_seen st"
  "sockets (for_client_put item 0 st) = sockets st"
  "next_ref (for_client_put item 0 st) = next_ref st"
  by (simp_all add: for_client_put_all)

lemma queues_for_client_put:
  "distinct (map queue (active_sockets st)) \<Longrightarrow>
   queues (for_client_put item 0 st) r =
     (if r \<in> queue ` set (active_sockets st) then queues st r @ [item] else queues st r)"
  by (simp add: for_client_put_all queues_put_all_distinct)

lemma mux_fields [simp]:
  "active_sockets (mux_ctl_stream_round cert_data st) = active_sockets st"
  "sockets (mux_ctl_stream_round cert_data st) = sockets st"
  "next_ref (mux_ctl_stream_round cert_data st) = next_ref st"
  by (simp_all add: mux_ctl_stream_round_def Let_def)

lemma queues_mux:
  "distinct (map queue (active_sockets st)) \<Longrightarrow>
   queues (mux_ctl_stream_round cert_data st) r =
     (if r \<in> queue ` set (active_sockets st) then queues st r @ [data_packet cert_data]
      else queues st r)"
  by (simp add: mux_ctl_stream_round_def Let_def queues_for_client_put)

lemma beat_fields [simp]:
  "active_sockets (ws_heartbeats_round timestamp st) = active_sockets st"
  "sockets (ws_heartbeats_round timestamp st) = sockets st"
  "next_ref (ws_heartbeats_round timestamp st) = next_ref st"
  by (simp_all add: ws_heartbeats_round_def)

lemma queues_beat:
  "distinct (map queue (active_sockets st)) \<Longrightarrow>
   queues (ws_heartbeats_round timestamp st) r =
     (if r \<in> queue ` set (active_sockets st) then queues st r @ [heartbeat timestamp]
      else queues st r)"
  by (simp add: ws_heartbeats_round_def queues_for_client_put)

lemma root_handler_open_state:
  "snd (root_handler_open get_ip now prepare request filename st) =
     (if truthy (headers request ''Upgrade'') \<and>
         (case GET request ''channel'' of None \<Rightarrow> ''default'' | Some c \<Rightarrow> c) \<in> set valid_channels \<and>
         prepare = None
      then st\<lparr>active_sockets := active_sockets st @
                [\<lparr>external_ip = get_ip request, queue = next_ref st,
                  connection_time = py_int now,
                  channel = (case GET request ''channel'' of None \<Rightarrow> ''default'' | Some c \<Rightarrow> c)\<rparr>],
              queues := (queues st)(next_ref st := []),
              sockets := (sockets st)(next_ref st := []),
              next_ref := Suc (next_ref st)\<rparr>
      else st)"
  by (simp add: root_handler_open_def Let_def split: option.splits)

lemma root_handler_open_cases:
  obtains (same) "snd (root_handler_open get_ip now prepare request filename st) = st"
  | (registered) info where "queue info = next_ref st"
      "snd (root_handler_open get_ip now prepare request filename st) =
         st\<lparr>active_sockets := active_sockets st @ [info],
            queues := (queues st)(next_ref st := []),
            sockets := (sockets st)(next_ref st := []),
            next_ref := Suc (next_ref st)\<rparr>"
proof (cases "truthy (headers request ''Upgrade'') \<and>
         (case GET request ''channel'' of None \<Rightarrow> ''default'' | Some c \<Rightarrow> c) \<in> set valid_channels \<and>
         prepare = None")
  case True
  show ?thesis
    by (rule registered [of "\<lparr>external_ip = get_ip request, queue = next_ref st,
                  connection_time = py_int now,
                  channel = (case GET request ''channel'' of None \<Rightarrow> ''default'' | Some c \<Rightarrow> c)\<rparr>"])
      (use True in \<open>simp_all add: root_handler_open_state\<close>)
next
  case False
  show ?thesis
    by (rule same) (use False in \<open>auto simp: root_handler_open_state\<close>)
qed

lemma distinct_map_remove1: "distinct (map f xs) \<Longrightarrow> distinct (map f (remove1 x xs))"
  by (auto simp: distinct_map intro: inj_on_diff)

lemma root_handler_round_cases:
  assumes "root_handler_round info st = Some st'"
  obtains message rest where "queues st (queue info) = message # rest"
    "st' = st\<lparr>queues := (queues st)(queue info := rest),
              sockets := (sockets st)(queue info := sockets st (queue info) @ [wire message])\<rparr>"
  using assms by (auto simp: root_handler_round_def wire_def split: list.splits)

lemma root_handler_finish_state:
  assumes "info \<in> set (active_sockets st)"
  shows "snd (root_handler_finish raised close_raises info st) =
     (if raised = CancelledError
      then st\<lparr>active_sockets := remove1 info (active_sockets st),
              sockets := (sockets st)(queue info := sockets st (queue info) @ [Close])\<rparr>
      else st\<lparr>active_sockets := remove1 info (active_sockets st)\<rparr>)"
  using assms
  by (simp add: root_handler_finish_def list_remove_remove1 Let_def split: option.splits)

lemma wf_server_step: "wf_server st \<Longrightarrow> wf_server (step get_ip ev st)"
proof (cases ev)
  case (Feed cert_data)
  assume "wf_server st"
  with Feed show ?thesis by (simp add: wf_server_def)
next
  case (Beat timestamp)
  assume "wf_server st"
  with Beat show ?thesis by (simp add: wf_server_def)
next
  case (Connect request now prepare)
  assume wf: "wf_server st"
  show ?thesis
  proof (cases get_ip now prepare request "None :: string option" st rule: root_handler_open_cases)
    case same
    with wf Connect show ?thesis by simp
  next
    case (registered info)
    have "queue c \<noteq> next_ref st" if "c \<in> set (active_sockets st)" for c
      using wf that by (auto simp: wf_server_def list_all_iff)
    moreover have "queue c < Suc (next_ref st)" if "c \<in> set (active_sockets st)" for c
      using wf that by (auto simp: wf_server_def list_all_iff)
    ultimately show ?thesis
      using wf Connect registered by (auto simp: wf_server_def list_all_iff)
  qed
next
  case (Deliver info)
  assume wf: "wf_server st"
  show ?thesis
  proof (cases "info \<in> set (active_sockets st) \<and> root_handler_round info st \<noteq> None")
    case True
    then obtain st' where st': "root_handler_round info st = Some st'" by auto
    then show ?thesis
      using wf Deliver True by (auto elim!: root_handler_round_cases simp: wf_server_def)
  next
    case False
    with wf Deliver show ?thesis by auto
  qed
next
  case (Stop info raised close_raises)
  assume wf: "wf_server st"
  show ?thesis
  proof (cases "info \<in> set (active_sockets st)")
    case True
    have "distinct (map queue (remove1 info (active_sockets st)))"
      using wf by (simp add: wf_server_def distinct_map_remove1)
    moreover have "list_all (\<lambda>c. queue c < next_ref st) (remove1 info (active_sockets st))"
      using wf by (auto simp: wf_server_def list_all_iff dest: notin_set_remove1)
    ultimately show ?thesis
      using Stop True by (simp add: root_handler_finish_state wf_server_def)
  next
    case False
    with wf Stop show ?thesis by simp
  qed
qed

lemma wf_server_init: "wf_server init"
  by (simp add: wf_server_def init_def)

lemma wf_server_run: "wf_server st \<Longrightarrow> wf_server (run get_ip evs st)"
  by (induction evs arbitrary: st) (simp_all add: wf_server_step)

lemma queue_neq:
  assumes "wf_server st" "c \<in> set (active_sockets st)" "d \<in> set (active_sockets st)" "d \<noteq> c"
  shows "queue d \<noteq> queue c"
  using assms by (auto simp: wf_server_def distinct_map inj_on_def)

lemma registered_step:
  assumes "c \<in> set (active_sockets st)" and "\<And>raised close_raises. ev \<noteq> Stop c raised close_raises"
  shows "c \<in> set (active_sockets (step get_ip ev st))"
proof (cases ev)
  case (Connect request now prepare)
  with assms(1) show ?thesis
    by (cases get_ip now prepare request "None :: string option" st rule: root_handler_open_cases)
      simp_all
next
  case (Deliver info)
  with assms(1) show ?thesis
    by (auto elim!: root_handler_round_cases split: option.splits)
next
  case (Stop info raised close_raises)
  with assms(2) have "info \<noteq> c" by auto
  with assms(1) Stop show ?thesis
    by (simp add: root_handler_finish_state)
qed (use assms(1) in simp_all)

lemma stream_step:
  assumes wf: "wf_server st" and reg: "c \<in> set (active_sockets st)"
    and stays: "\<And>raised close_raises. ev \<noteq> Stop c raised close_raises"
  shows "sockets (step get_ip ev st) (queue c) @ map wire (queues (step get_ip ev st) (queue c)) =
         sockets st (queue c) @ map wire (queues st (queue c)) @ map wire (broadcast [ev])"
proof (cases ev)
  case (Feed cert_data)
  with wf reg show ?thesis
    by (simp add: queues_mux wf_server_def)
next
  case (Beat timestamp)
  with wf reg show ?thesis
    by (simp add: queues_beat wf_server_def)
next
  case (Connect request now prepare)
  have fresh: "queue c \<noteq> next_ref st"
    using wf reg by (auto simp: wf_server_def list_all_iff)
  show ?thesis
    using Connect fresh
    by (cases get_ip now prepare request "None :: string option" st rule: root_handler_open_cases)
      simp_all
next
  case (Deliver info)
  show ?thesis
  proof (cases "info \<in> set (active_sockets st)")
    case True
    show ?thesis
    proof (cases "info = c")
      case same: True
      with Deliver reg show ?thesis
        by (auto elim!: root_handler_round_cases split: option.splits)
    next
      case False
      with wf reg True have "queue info \<noteq> queue c"
        by (rule queue_neq)
      with Deliver True show ?thesis
        by (auto elim!: root_handler_round_cases split: option.splits)
    qed
  next
    case False
    with Deliver show ?thesis by simp
  qed
next
  case (Stop info raised close_raises)
  show ?thesis
  proof (cases "info \<in> set (active_sockets st)")
    case True
    from stays Stop have "info \<noteq> c" by auto
    with wf reg True have "queue info \<noteq> queue c"
      by (rule queue_neq)
    with Stop True show ?thesis
      by (simp add: root_handler_finish_state)
  next
    case False
    with Stop show ?thesis by simp
  qed
qed

lemma broadcast_append [simp]: "broadcast (evs @ evs') = broadcast evs @ broadcast evs'"
  by (induction evs rule: broadcast.induct) simp_all

lemma stream_run:
  assumes "wf_server st" and "c \<in> set (active_sockets st)"
    and "\<forall>ev \<in> set evs. \<forall>raised close_raises. ev \<noteq> Stop c raised close_raises"
  shows "c \<in> set (active_sockets (run get_ip evs st)) \<and>
         sockets (run get_ip evs st) (queue c) @ map wire (queues (run get_ip evs st) (queue c)) =
         sockets st (queue c) @ map wire (queues st (queue c)) @ map wire (broadcast evs)"
  using assms
proof (induction evs arbitrary: st)
  case Nil
  then show ?case by simp
next
  case (Cons ev evs)
  have stays: "ev \<noteq> Stop c raised close_raises" for raised close_raises
    using Cons.prems(3) by simp
  have wf': "wf_server (step get_ip ev st)"
    using Cons.prems(1) by (rule wf_server_step)
  have reg': "c \<in> set (active_sockets (step get_ip ev st))"
    using Cons.prems(2) stays by (rule registered_step)
  have rest: "\<forall>ev \<in> set evs. \<forall>raised close_raises. ev \<noteq> Stop c raised close_raises"
    using Cons.prems(3) by simp
  have "broadcast (ev # evs) = broadcast [ev] @ broadcast evs"
    using broadcast_append [of "[ev]" evs] by simp
  with Cons.IH [OF wf' reg' rest] stream_step [OF Cons.prems(1,2) stays, of get_ip]
  show ?case by simp
qed

lemma drain:
  assumes "c \<in> set (active_sockets st)"
  shows "sockets (run get_ip (replicate (length (queues st (queue c))) (Deliver c)) st) (queue c) =
           sockets st (queue c) @ map wire (queues st (queue c)) \<and>
         queues (run get_ip (replicate (length (queues st (queue c))) (Deliver c)) st) (queue c) = []"
  using assms
proof (induction "queues st (queue c)" arbitrary: st)
  case Nil
  then show ?case by simp
next
  case (Cons message rest)
  let ?st' = "st\<lparr>queues := (queues st)(queue c := rest),
              sockets := (sockets st)(queue c := sockets st (queue c) @ [wire message])\<rparr>"
  have step: "step get_ip (Deliver c) st = ?st'"
    using Cons.hyps(2) [symmetric] Cons.prems by (simp add: root_handler_round_def wire_def)
  have "rest = queues ?st' (queue c)" and "c \<in> set (active_sockets ?st')"
    using Cons.prems by simp_all
  from Cons.hyps(1) [OF this] show ?case
    using Cons.hyps(2) [symmetric] step by simp
qed

lemma sent_updates_append [simp]:
  "sent_updates (acts @ acts') = sent_updates acts @ sent_updates acts'"
  by (induction acts rule: sent_updates.induct) simp_all

lemma sent_updates_wire [simp]: "sent_updates (map wire ms) = filter is_update ms"
  by (induction ms) (simp_all add: wire_def)

lemma is_update_packets [simp]:
  "is_update (data_packet cert_data)" "\<not> is_update (heartbeat timestamp)"
  by (simp_all add: is_update_def data_packet_def heartbeat_def)

lemma updates_broadcast: "filter is_update (broadcast evs) = map data_packet (fed evs)"
  by (induction evs rule: broadcast.induct) simp_all

lemma one_client_state:
  "active_sockets one_client = [client_a]" "recently_seen one_client = []"
  "queues one_client = (\<lambda>_. [])" "sockets one_client = (\<lambda>_. [])" "next_ref one_client = 1"
  by (auto simp: one_client_def root_handler_open_def truthy_def valid_channels_def
      init_def py_int_def Let_def ws_request_def client_a_def sample_ip_def)

lemma wf_server_one_client: "wf_server one_client"
  by (simp add: wf_server_def one_client_state) (simp add: client_a_def)

lemma message_type_packets [simp]:
  "message_type (data_packet cert_data) = Some (JStr ''certificate_update'')"
  "message_type (heartbeat timestamp) = Some (JStr ''heartbeat'')"
  by (simp_all add: data_packet_def heartbeat_def)

lemma recently_seen_updates:
  "p \<in> set (recently_seen (run get_ip evs init)) \<Longrightarrow> \<exists>cert_data. p = data_packet cert_data"
  by (auto simp: recently_seen_run dest!: in_set_dropD)

lemma wf_server_beat: "wf_server st \<Longrightarrow> wf_server (ws_heartbeats_round timestamp st)"
  using wf_server_step [of st "\<lambda>_. []" "Beat timestamp"] by simp

lemma ticks_Suc:
  fixes horizon now :: rat
  assumes "now + 10 \<le> horizon"
  shows "nat \<lfloor>(horizon - now) / 10\<rfloor> = Suc (nat \<lfloor>(horizon - (now + 10)) / 10\<rfloor>)"
proof -
  have "(horizon - now) / 10 = (horizon - (now + 10)) / 10 + 1"
    by (simp add: field_simps)
  then have "\<lfloor>(horizon - now) / 10\<rfloor> = \<lfloor>(horizon - (now + 10)) / 10 + of_int 1\<rfloor>"
    by (simp only: of_int_1)
  then have "\<lfloor>(horizon - now) / 10\<rfloor> = \<lfloor>(horizon - (now + 10)) / 10\<rfloor> + 1"
    by (simp only: floor_add_int)
  moreover from assms have "0 \<le> \<lfloor>(horizon - (now + 10)) / 10\<rfloor>"
    by simp
  ultimately show ?thesis by linarith
qed

lemma ticks_0:
  fixes horizon now :: rat
  assumes "\<not> now + 10 \<le> horizon"
  shows "nat \<lfloor>(horizon - now) / 10\<rfloor> = 0"
proof -
  from assms have "(horizon - now) / 10 < 1"
    by simp
  then have "\<lfloor>(horizon - now) / 10\<rfloor> < 1"
    by (simp add: floor_less_iff)
  then show ?thesis by simp
qed

lemma two_clients_state:
  "active_sockets two_clients = [client_a, client_b]" "recently_seen two_clients = []"
  "queues two_clients = (\<lambda>_. [])" "sockets two_clients = (\<lambda>_. [])" "next_ref two_clients = 2"
  by (auto simp: two_clients_def root_handler_open_def truthy_def valid_channels_def
      init_def py_int_def Let_def ws_request_def client_a_def client_b_def sample_ip_def)





lemma sent_packets_append [simp]:
  "sent_packets (acts @ acts') = sent_packets acts @ sent_packets acts'"
  by (induction acts rule: sent_packets.induct) simp_all

lemma sent_packets_wire [simp]: "sent_packets (map wire ms) = ms"
  by (induction ms) (simp_all add: wire_def)

lemma is_heartbeat_packets [simp]:
  "is_heartbeat (heartbeat timestamp)" "\<not> is_heartbeat (data_packet cert_data)"
  by (simp_all add: is_heartbeat_def)

lemma heartbeats_broadcast:
  "\<forall>ev \<in> set evs. \<forall>timestamp. ev \<noteq> Beat timestamp \<Longrightarrow> filter is_heartbeat (broadcast evs) = []"
  by (induction evs rule: broadcast.induct) simp_all

lemma pending_run:
  assumes "wf_server st" and "c \<in> set (active_sockets st)"
    and "\<forall>ev \<in> set evs. \<forall>raised close_raises. ev \<noteq> Stop c raised close_raises"
  shows "sent_packets (sockets (run get_ip evs st) (queue c)) @ queues (run get_ip evs st) (queue c) =
         sent_packets (sockets st (queue c)) @ queues st (queue c) @ broadcast evs"
proof -
  from stream_run [OF assms, of get_ip]
  have "sent_packets (sockets (run get_ip evs st) (queue c) @
          map wire (queues (run get_ip evs st) (queue c))) =
        sent_packets (sockets st (queue c) @ map wire (queues st (queue c)) @ map wire (broadcast evs))"
    by simp
  then show ?thesis by simp
qed

lemma heartbeats_ws_heartbeats:
  "\<forall>now. \<forall>ev \<in> set (others now).
      (\<forall>timestamp. ev \<noteq> Beat timestamp) \<and> (\<forall>raised close_raises. ev \<noteq> Stop c raised close_raises) \<Longrightarrow>
   wf_server st \<Longrightarrow> c \<in> set (active_sockets st) \<Longrightarrow>
   filter is_heartbeat
     (sent_packets (sockets (ws_heartbeats get_ip others horizon now st) (queue c)) @
      queues (ws_heartbeats get_ip others horizon now st) (queue c)) =
   filter is_heartbeat (sent_packets (sockets st (queue c)) @ queues st (queue c)) @
   map (\<lambda>k. heartbeat (now + 10 * of_nat (Suc k))) [0..<nat \<lfloor>(horizon - now) / 10\<rfloor>]"
proof (induction get_ip others horizon now st rule: ws_heartbeats.induct)
  case (1 get_ip others horizon now st)
  let ?slept = "run get_ip (others now) st"
  note quiet = "1.prems"(1) and wf = "1.prems"(2) and reg = "1.prems"(3)
  have stays: "\<forall>ev \<in> set (others now). \<forall>raised close_raises. ev \<noteq> Stop c raised close_raises"
    and no_beat: "\<forall>ev \<in> set (others now). \<forall>timestamp. ev \<noteq> Beat timestamp"
    using quiet by auto
  have wf1: "wf_server ?slept"
    using wf by (rule wf_server_run)
  have reg1: "c \<in> set (active_sockets ?slept)"
    using stream_run [OF wf reg stays, of get_ip] by simp
  have slept: "filter is_heartbeat (sent_packets (sockets ?slept (queue c)) @ queues ?slept (queue c)) =
      filter is_heartbeat (sent_packets (sockets st (queue c)) @ queues st (queue c))"
    using pending_run [OF wf reg stays, of get_ip] heartbeats_broadcast [OF no_beat]
    by simp
  show ?case
  proof (cases "now + 10 \<le> horizon")
    case True
    let ?st' = "ws_heartbeats_round (now + 10) ?slept"
    let ?n = "nat \<lfloor>(horizon - (now + 10)) / 10\<rfloor>"
    have wf': "wf_server ?st'"
      using wf1 by (rule wf_server_beat)
    have reg': "c \<in> set (active_sockets ?st')"
      using reg1 by simp
    have first: "filter is_heartbeat (sent_packets (sockets ?st' (queue c)) @ queues ?st' (queue c)) =
        filter is_heartbeat (sent_packets (sockets st (queue c)) @ queues st (queue c)) @
        [heartbeat (now + 10)]"
      using wf1 reg1 slept by (simp add: queues_beat wf_server_def)
    have unfold: "ws_heartbeats get_ip others horizon now st =
        ws_heartbeats get_ip others horizon (now + 10) ?st'"
      using True by (subst ws_heartbeats.simps) simp
    have "filter is_heartbeat
        (sent_packets (sockets (ws_heartbeats get_ip others horizon (now + 10) ?st') (queue c)) @
         queues (ws_heartbeats get_ip others horizon (now + 10) ?st') (queue c)) =
        filter is_heartbeat (sent_packets (sockets ?st' (queue c)) @ queues ?st' (queue c)) @
        map (\<lambda>k. heartbeat (now + 10 + 10 * of_nat (Suc k))) [0..<?n]"
      using "1.IH" [OF True quiet wf' reg'] .
    also have "\<dots> = filter is_heartbeat (sent_packets (sockets st (queue c)) @ queues st (queue c)) @
        map (\<lambda>k. heartbeat (now + 10 * of_nat (Suc k))) [0..<Suc ?n]"
      unfolding first map_upt_Suc by (simp add: algebra_simps)
    finally show ?thesis
      by (simp only: unfold ticks_Suc [OF True])
  next
    case False
    have "ws_heartbeats get_ip others horizon now st = ?slept"
      using False by (subst ws_heartbeats.simps) simp
    then show ?thesis
      using slept by (simp add: ticks_0 [OF False])
  qed
qed

lemma queues_ws_heartbeats_alone:
  "wf_server st \<Longrightarrow> c \<in> set (active_sockets st) \<Longrightarrow>
   queues (ws_heartbeats get_ip (\<lambda>_. []) horizon now st) (queue c) =
     queues st (queue c) @
     map (\<lambda>k. heartbeat (now + 10 * of_nat (Suc k))) [0..<nat \<lfloor>(horizon - now) / 10\<rfloor>]"
proof (induction get_ip "\<lambda>_ :: rat. [] :: event list" horizon now st rule: ws_heartbeats.induct)
  case (1 get_ip horizon now st)
  show ?case
  proof (cases "now + 10 \<le> horizon")
    case True
    let ?st' = "ws_heartbeats_round (now + 10) st"
    let ?n = "nat \<lfloor>(horizon - (now + 10)) / 10\<rfloor>"
    have wf': "wf_server ?st'"
      using "1.prems"(1) by (rule wf_server_beat)
    have reg': "c \<in> set (active_sockets ?st')"
      using "1.prems"(2) by simp
    have first: "queues ?st' (queue c) = queues st (queue c) @ [heartbeat (now + 10)]"
      using "1.prems" by (simp add: queues_beat wf_server_def)
    have unfold: "ws_heartbeats get_ip (\<lambda>_. []) horizon now st =
        ws_heartbeats get_ip (\<lambda>_. []) horizon (now + 10) ?st'"
      using True by (subst ws_heartbeats.simps) simp
    have "queues (ws_heartbeats get_ip (\<lambda>_. []) horizon (now + 10) ?st') (queue c) =
        queues ?st' (queue c) @
        map (\<lambda>k. heartbeat (now + 10 + 10 * of_nat (Suc k))) [0..<?n]"
      using "1.hyps" [OF True] wf' reg' by simp
    also have "\<dots> = queues st (queue c) @
        map (\<lambda>k. heartbeat (now + 10 * of_nat (Suc k))) [0..<Suc ?n]"
      unfolding first map_upt_Suc by (simp add: algebra_simps)
    finally show ?thesis
      by (simp only: unfold ticks_Suc [OF True])
  next
    case False
    have "ws_heartbeats get_ip (\<lambda>_. []) horizon now st = st"
      using False by (subst ws_heartbeats.simps) simp
    then show ?thesis
      by (simp add: ticks_0 [OF False])
  qed
qed



section \<open>The replay buffer\<close>

text \<open>
  C3. Whatever the tasks do, in whatever order, the replay buffer holds the last (at most
  25) packets the multiplexer made, in arrival order. After 26 records it holds the
  packets of records 2 to 26: the 26th is there, and the first is not (when no later
  record equals it).
\<close>

theorem replay_buffer_capacity:
  "length (recently_seen (run get_ip evs init)) \<le> 25 \<and>
   recently_seen (run get_ip evs init) =
     drop (length (fed evs) - 25) (map data_packet (fed evs)) \<and>
   (length (fed evs) = 26 \<longrightarrow>
      recently_seen (run get_ip evs init) = tl (map data_packet (fed evs)) \<and>
      data_packet (last (fed evs)) \<in> set (recently_seen (run get_ip evs init)) \<and>
      (distinct (fed evs) \<longrightarrow>
         data_packet (hd (fed evs)) \<notin> set (recently_seen (run get_ip evs init))))"
proof -
  let ?arrived = "map data_packet (fed evs)"
  have buf: "recently_seen (run get_ip evs init) = drop (length (fed evs) - 25) ?arrived"
    using recently_seen_run [of get_ip evs] by (simp add: maxlen_def)
  have inj: "inj data_packet"
    by (simp add: inj_def data_packet_def)
  have "length (drop (length (fed evs) - 25) ?arrived) \<le> 25"
    by simp
  moreover have "length (fed evs) = 26 \<Longrightarrow> drop (length (fed evs) - 25) ?arrived = tl ?arrived"
    by (simp add: drop_Suc)
  moreover have "length (fed evs) = 26 \<Longrightarrow> data_packet (last (fed evs)) \<in> set (tl ?arrived)"
  proof -
    assume len: "length (fed evs) = 26"
    then have "tl ?arrived \<noteq> []"
      by (cases "fed evs") auto
    then have "last (tl ?arrived) \<in> set (tl ?arrived)"
      by (rule last_in_set)
    moreover have "last (tl ?arrived) = data_packet (last (fed evs))"
      using len by (cases "fed evs") (auto simp: last_map)
    ultimately show ?thesis by simp
  qed
  moreover have "length (fed evs) = 26 \<Longrightarrow> distinct (fed evs) \<Longrightarrow>
      data_packet (hd (fed evs)) \<notin> set (tl ?arrived)"
  proof -
    assume len: "length (fed evs) = 26" and dist: "distinct (fed evs)"
    from dist inj have "distinct ?arrived"
      by (simp add: distinct_map inj_on_def inj_def)
    then show ?thesis
      using len by (cases "fed evs") auto
  qed
  ultimately show ?thesis
    using buf by simp
qed

theorem replay_buffer_capacity_witness:
  "length (fed (map (\<lambda>i. Feed (JInt i)) [1..26])) = 26 \<and>
   distinct (fed (map (\<lambda>i. Feed (JInt i)) [1..26])) \<and>
   length (recently_seen (run (\<lambda>_. []) (map (\<lambda>i. Feed (JInt i)) [1..26]) init)) \<le> 25 \<and>
   recently_seen (run (\<lambda>_. []) (map (\<lambda>i. Feed (JInt i)) [1..26]) init) =
     map (\<lambda>i. data_packet (JInt i)) [2..26] \<and>
   data_packet (JInt 26) \<in> set (recently_seen (run (\<lambda>_. []) (map (\<lambda>i. Feed (JInt i)) [1..26]) init)) \<and>
   data_packet (JInt 1) \<notin> set (recently_seen (run (\<lambda>_. []) (map (\<lambda>i. Feed (JInt i)) [1..26]) init))"
proof -
  let ?evs = "map (\<lambda>i. Feed (JInt i)) [1..26]"
  have fed: "fed ?evs = map JInt [1..26]"
    by code_simp
  have len: "length (fed ?evs) = 26"
    unfolding fed by simp
  have dist: "distinct (fed ?evs)"
    unfolding fed by (simp add: distinct_map inj_on_def)
  have tl: "tl (map data_packet (fed ?evs)) = map (\<lambda>i. data_packet (JInt i)) [2..26]"
    unfolding fed by code_simp
  have hd: "hd (fed ?evs) = JInt 1" and last: "last (fed ?evs) = JInt 26"
    unfolding fed by code_simp+
  note cap = replay_buffer_capacity [of "\<lambda>_. []" ?evs]
  note at26 = cap [THEN conjunct2, THEN conjunct2, THEN mp, OF len]
  note bound = cap [THEN conjunct1]
    and buffer = at26 [THEN conjunct1, unfolded tl]
    and newest = at26 [THEN conjunct2, THEN conjunct1, unfolded last]
    and oldest = at26 [THEN conjunct2, THEN conjunct2, THEN mp, OF dist, unfolded hd]
  from len dist bound buffer newest oldest show ?thesis
    by (intro conjI)
qed

section \<open>The example endpoint\<close>

text \<open>
  C1, as stated, fails: with two records in the buffer the example endpoint answers with
  the first one, not with the one inserted last.
\<close>

theorem example_returns_most_recent_counterexample:
  "recently_seen (run sample_ip [Feed (JStr ''first''), Feed (JStr ''second'')] init) =
     [data_packet (JStr ''first''), data_packet (JStr ''second'')] \<and>
   body (example_json_handler (run sample_ip [Feed (JStr ''first''), Feed (JStr ''second'')] init)) =
     Json_dumps (data_packet (JStr ''first'')) (Some 4) \<and>
   body (example_json_handler (run sample_ip [Feed (JStr ''first''), Feed (JStr ''second'')] init)) \<noteq>
     Json_dumps (data_packet (JStr ''second'')) (Some 4)"
  by (simp add: example_json_handler_def init_def deque_append_def maxlen_def data_packet_def)

text \<open>
  C1, amended. The endpoint reads \<^verbatim>\<open>list(self.recently_seen)[0]\<close>: for every state of
  the buffer it answers \<^verbatim>\<open>{}\<close> when the buffer is empty, and with the first entry of
  the buffer otherwise. In a running server: when no record has arrived it answers
  \<^verbatim>\<open>{}\<close>; otherwise it answers with the oldest packet the buffer still holds, which is
  the packet of record number \<open>n - 25\<close> (counting from 0, with truncating subtraction)
  when \<open>n\<close> records have arrived.
\<close>

theorem example_returns_oldest_retained:
  "body (example_json_handler st) =
     (if recently_seen st = [] then Literal ''{}''
      else Json_dumps (hd (recently_seen st)) (Some 4)) \<and>
   body (example_json_handler (run get_ip evs init)) =
     (if fed evs = [] then Literal ''{}''
      else Json_dumps (data_packet (fed evs ! (length (fed evs) - 25))) (Some 4))"
proof
  show "body (example_json_handler st) =
     (if recently_seen st = [] then Literal ''{}''
      else Json_dumps (hd (recently_seen st)) (Some 4))"
    by (simp add: example_json_handler_def hd_conv_nth)
next
  show "body (example_json_handler (run get_ip evs init)) =
     (if fed evs = [] then Literal ''{}''
      else Json_dumps (data_packet (fed evs ! (length (fed evs) - 25))) (Some 4))"
  proof (cases "fed evs = []")
    case True
    then show ?thesis
      by (simp add: example_json_handler_def recently_seen_run)
  next
    case False
    then have lt: "length (fed evs) - 25 < length (fed evs)"
      by (cases "fed evs") auto
    then have "recently_seen (run get_ip evs init) \<noteq> []"
      by (simp add: recently_seen_run maxlen_def)
    moreover have "recently_seen (run get_ip evs init) ! 0 =
        data_packet (fed evs ! (length (fed evs) - 25))"
      using lt by (simp add: recently_seen_run maxlen_def)
    ultimately show ?thesis
      using False by (simp add: example_json_handler_def)
  qed
qed

theorem example_returns_oldest_retained_witness:
  "fed [Feed (JStr ''first''), Feed (JStr ''second'')] \<noteq> [] \<and>
   body (example_json_handler (run (\<lambda>_. []) [Feed (JStr ''first''), Feed (JStr ''second'')] init)) =
     Json_dumps (data_packet (JStr ''first'')) (Some 4) \<and>
   fed [Beat 10] = [] \<and>
   body (example_json_handler (run (\<lambda>_. []) [Beat 10] init)) = Literal ''{}''"
  using example_returns_oldest_retained [of init "\<lambda>_. []" "[Feed (JStr ''first''), Feed (JStr ''second'')]"]
    example_returns_oldest_retained [of init "\<lambda>_. []" "[Beat 10]"]
  by simp

section \<open>Subscribing\<close>

text \<open>
  C5. A websocket request whose \<^verbatim>\<open>channel\<close> parameter is none of \<^verbatim>\<open>default\<close>,
  \<^verbatim>\<open>dns-only\<close>, \<^verbatim>\<open>leaf-only\<close> is answered with \<^verbatim>\<open>HTTPBadRequest\<close>, and the
  server (registry, queues, buffer) is as it was before.
\<close>

theorem invalid_channel_rejected:
  assumes "truthy (headers request ''Upgrade'')"
    and "GET request ''channel'' = Some tag"
    and "tag \<notin> {''default'', ''dns-only'', ''leaf-only''}"
  shows "root_handler_open get_ip now prepare request filename st =
           (Inl (HTTPBadRequest ''Invalid channel!''), st) \<and>
         step get_ip (Connect request now prepare) st = st"
  using assms by (simp add: root_handler_open_def valid_channels_def)

theorem invalid_channel_rejected_witness:
  "truthy (headers (ws_request (Some ''bogus'')) ''Upgrade'') \<and>
   GET (ws_request (Some ''bogus'')) ''channel'' = Some ''bogus'' \<and>
   ''bogus'' \<notin> {''default'', ''dns-only'', ''leaf-only''} \<and>
   root_handler_open sample_ip 1000 None (ws_request (Some ''bogus'')) None init =
     (Inl (HTTPBadRequest ''Invalid channel!''), init) \<and>
   step sample_ip (Connect (ws_request (Some ''bogus'')) 1000 None) init = init"
proof -
  have up: "truthy (headers (ws_request (Some ''bogus'')) ''Upgrade'')"
    by (simp add: truthy_def ws_request_def)
  have ch: "GET (ws_request (Some ''bogus'')) ''channel'' = Some ''bogus''"
    by (simp add: ws_request_def)
  have bogus: "''bogus'' \<notin> {''default'', ''dns-only'', ''leaf-only''}"
    by simp
  from invalid_channel_rejected [OF up ch bogus, of sample_ip 1000 None None init] up ch bogus
  show ?thesis by blast
qed

section \<open>Leaving the registry\<close>

text \<open>
  C7, as stated, fails: \<^verbatim>\<open>list.remove\<close> of a tuple the registry does not hold raises
  \<^verbatim>\<open>ValueError\<close>.
\<close>

theorem remove_absent_counterexample:
  "client_b \<notin> set [client_a] \<and> list_remove [client_a] client_b = Inl ValueError"
  by (simp add: client_a_def client_b_def)

text \<open>
  C7, amended. Removing a tuple the registry holds gives the registry without its first
  occurrence, one entry shorter; when the entries are pairwise different the tuple is
  gone, the others stay, and removing it once more raises \<^verbatim>\<open>ValueError\<close>. Removing a
  tuple the registry does not hold raises \<^verbatim>\<open>ValueError\<close>. So it is in the handler: on
  its way out it takes the first occurrence of its tuple out of the registry, and for a
  tuple the registry does not hold it raises \<^verbatim>\<open>ValueError\<close> and leaves the server as
  it is.
\<close>

theorem remove_present_deletes_absent_raises:
  "(c \<in> set reg \<longrightarrow>
      list_remove reg c = Inr (remove1 c reg) \<and>
      length (remove1 c reg) = length reg - 1 \<and>
      (distinct reg \<longrightarrow> c \<notin> set (remove1 c reg) \<and> set (remove1 c reg) = set reg - {c} \<and>
         list_remove (remove1 c reg) c = Inl ValueError)) \<and>
   (c \<notin> set reg \<longrightarrow> list_remove reg c = Inl ValueError) \<and>
   (c \<in> set (active_sockets st) \<longrightarrow>
      active_sockets (snd (root_handler_finish raised close_raises c st)) =
        remove1 c (active_sockets st)) \<and>
   (c \<notin> set (active_sockets st) \<longrightarrow>
      root_handler_finish raised close_raises c st = (Inl ValueError, st))"
  by (auto simp: list_remove_remove1 length_remove1 root_handler_finish_def Let_def
      split: option.splits)

theorem remove_present_deletes_absent_raises_witness:
  "client_a \<in> set [client_a, client_b] \<and> distinct [client_a, client_b] \<and>
   list_remove [client_a, client_b] client_a = Inr [client_b] \<and>
   list_remove [client_b] client_a = Inl ValueError \<and>
   client_b \<notin> set [client_a] \<and> list_remove [client_a] client_b = Inl ValueError \<and>
   client_a \<in> set (active_sockets two_clients) \<and>
   active_sockets (snd (root_handler_finish CancelledError None client_a two_clients)) = [client_b] \<and>
   client_b \<notin> set (active_sockets one_client) \<and>
   root_handler_finish CancelledError None client_b one_client = (Inl ValueError, one_client)"
  using remove_present_deletes_absent_raises
      [where c = client_a and reg = "[client_a, client_b]" and st = two_clients
        and raised = CancelledError and close_raises = None]
    remove_present_deletes_absent_raises
      [where c = client_b and reg = "[client_a]" and st = one_client
        and raised = CancelledError and close_raises = None]
  by (simp add: one_client_state two_clients_state) (simp add: client_a_def client_b_def)

text \<open>
  C4, as stated, fails twice. After an error of the write the handler removes its tuple
  and the error goes on to the caller: \<^verbatim>\<open>ws.close()\<close> is not reached. After a
  cancellation \<^verbatim>\<open>ws.close()\<close> is called, and an error it raises goes on to the caller.
\<close>

theorem close_attempt_counterexample:
  "active_sockets (run sample_ip [Connect (ws_request None) 1000 None] init) = [client_a] \<and>
   fst (root_handler_finish (TransportError ''write failed'') None client_a
        (run sample_ip [Connect (ws_request None) 1000 None] init))
     = Inl (TransportError ''write failed'') \<and>
   Close \<notin> set (sockets (snd (root_handler_finish (TransportError ''write failed'') None client_a
        (run sample_ip [Connect (ws_request None) 1000 None] init))) (queue client_a)) \<and>
   fst (root_handler_finish CancelledError (Some (TransportError ''close failed'')) client_a
        (run sample_ip [Connect (ws_request None) 1000 None] init))
     = Inl (TransportError ''close failed'')"
  by (simp add: root_handler_open_def root_handler_finish_def truthy_def valid_channels_def
      init_def py_int_def Let_def ws_request_def client_a_def sample_ip_def)

text \<open>
  C4, amended. Whatever exception ends the loop of a registered handler, its tuple is out
  of the registry when the handler gives up control, and the other tuples stay. After a
  \<^verbatim>\<open>CancelledError\<close> the handler calls \<^verbatim>\<open>ws.close()\<close> and returns the websocket, or
  raises what \<^verbatim>\<open>ws.close()\<close> raised. After any other exception it does not touch the
  websocket and raises that exception.
\<close>

theorem session_exit_deregisters:
  assumes "info \<in> set (active_sockets st)" and "wf_server st"
  shows "case root_handler_finish raised close_raises info st of (out, st') \<Rightarrow>
     info \<notin> set (active_sockets st') \<and>
     set (active_sockets st') = set (active_sockets st) - {info} \<and>
     (if raised = CancelledError
      then sockets st' (queue info) = sockets st (queue info) @ [Close] \<and>
           out = (case close_raises of None \<Rightarrow> Inr (Websocket (queue info)) | Some e \<Rightarrow> Inl e)
      else sockets st' = sockets st \<and> out = Inl raised)"
proof -
  from assms(2) have "distinct (active_sockets st)"
    by (rule wf_server_distinct)
  with assms(1) show ?thesis
    by (simp add: root_handler_finish_def list_remove_remove1 Let_def split: option.splits)
qed

theorem session_exit_deregisters_witness:
  "client_a \<in> set (active_sockets one_client) \<and> wf_server one_client \<and>
   (case root_handler_finish CancelledError (Some (TransportError ''close failed'')) client_a
      one_client of
    (out, st') \<Rightarrow> active_sockets st' = [] \<and> sockets st' (queue client_a) = [Close] \<and>
       out = Inl (TransportError ''close failed'')) \<and>
   (case root_handler_finish (TransportError ''write failed'') None client_a one_client of
    (out, st') \<Rightarrow> active_sockets st' = [] \<and> sockets st' (queue client_a) = [] \<and>
       out = Inl (TransportError ''write failed''))"
proof -
  have reg: "client_a \<in> set (active_sockets one_client)"
    by (simp add: one_client_state)
  from session_exit_deregisters [OF reg wf_server_one_client, of CancelledError
      "Some (TransportError ''close failed'')"]
    session_exit_deregisters [OF reg wf_server_one_client, of "TransportError ''write failed''" None]
    reg wf_server_one_client
  show ?thesis
    by (auto simp: one_client_state split: prod.splits)
qed

section \<open>Delivery to a subscriber\<close>

text \<open>
  C2. Take a server in which the tuple \<open>c\<close> is registered, with nothing on its queue and
  nothing written to its websocket yet, and any run of the tasks in which the handler of
  \<open>c\<close> is not stopped: records arrive, heartbeats are made, other clients come and go, the
  handlers (that of \<open>c\<close> among them) write whenever they are scheduled. At the end of the
  run the \<^verbatim>\<open>certificate_update\<close> packets written to the websocket of \<open>c\<close>, followed by
  those still on its queue, are the packets of the records that arrived, each once, in
  arrival order. Once the handler has run for each item left on the queue, all of them are
  written and the queue is empty.
\<close>

theorem subscriber_receives_all_updates_in_order:
  assumes "wf_server st" and "c \<in> set (active_sockets st)"
    and "queues st (queue c) = []" and "sockets st (queue c) = []"
    and "\<forall>ev \<in> set evs. \<forall>raised close_raises. ev \<noteq> Stop c raised close_raises"
  shows "sent_updates (sockets (run get_ip evs st) (queue c)) @
           filter is_update (queues (run get_ip evs st) (queue c)) =
         map data_packet (fed evs) \<and>
         sent_updates (sockets (run get_ip
             (evs @ replicate (length (queues (run get_ip evs st) (queue c))) (Deliver c)) st)
             (queue c)) =
         map data_packet (fed evs) \<and>
         queues (run get_ip
             (evs @ replicate (length (queues (run get_ip evs st) (queue c))) (Deliver c)) st)
             (queue c) = []"
proof -
  let ?st' = "run get_ip evs st"
  from stream_run [OF assms(1,2,5), of get_ip]
  have reg: "c \<in> set (active_sockets ?st')"
    and stream: "sockets ?st' (queue c) @ map wire (queues ?st' (queue c)) = map wire (broadcast evs)"
    using assms(3,4) by simp_all
  have "sent_updates (sockets ?st' (queue c) @ map wire (queues ?st' (queue c))) =
      map data_packet (fed evs)"
    unfolding stream by (simp add: updates_broadcast)
  then have safety: "sent_updates (sockets ?st' (queue c)) @
      filter is_update (queues ?st' (queue c)) = map data_packet (fed evs)"
    by simp
  from drain [OF reg, of get_ip] stream
  have "sockets (run get_ip (replicate (length (queues ?st' (queue c))) (Deliver c)) ?st') (queue c) =
      map wire (broadcast evs)"
    and "queues (run get_ip (replicate (length (queues ?st' (queue c))) (Deliver c)) ?st') (queue c) = []"
    by simp_all
  then show ?thesis
    using safety by (simp add: run_append updates_broadcast)
qed

theorem subscriber_receives_all_updates_in_order_witness:
  "wf_server one_client \<and> client_a \<in> set (active_sockets one_client) \<and>
   queues one_client (queue client_a) = [] \<and> sockets one_client (queue client_a) = [] \<and>
   sent_updates (sockets (run sample_ip
       ([Feed (JStr ''a''), Beat 10, Feed (JStr ''b''), Deliver client_a] @
        replicate (length (queues (run sample_ip
            [Feed (JStr ''a''), Beat 10, Feed (JStr ''b''), Deliver client_a] one_client)
            (queue client_a))) (Deliver client_a)) one_client)
       (queue client_a)) =
     [data_packet (JStr ''a''), data_packet (JStr ''b'')]"
proof -
  let ?evs = "[Feed (JStr ''a''), Beat 10, Feed (JStr ''b''), Deliver client_a]"
  have reg: "client_a \<in> set (active_sockets one_client)"
    and q: "queues one_client (queue client_a) = []"
    and s: "sockets one_client (queue client_a) = []"
    by (simp_all add: one_client_state)
  have stays: "\<forall>ev \<in> set ?evs. \<forall>raised close_raises. ev \<noteq> Stop client_a raised close_raises"
    by simp
  have fed: "map data_packet (fed ?evs) = [data_packet (JStr ''a''), data_packet (JStr ''b'')]"
    by simp
  note all = subscriber_receives_all_updates_in_order
    [OF wf_server_one_client reg q s stays, of sample_ip, unfolded fed]
  from wf_server_one_client reg q s all [THEN conjunct2, THEN conjunct1]
  show ?thesis by (intro conjI)
qed

text \<open>
  C10. Every packet in the replay buffer is a \<^verbatim>\<open>certificate_update\<close>, whatever the
  tasks have done since the server started; a round of the heartbeat generator leaves the
  buffer as it is. So every message of the latest-snapshot response is a
  \<^verbatim>\<open>certificate_update\<close>, and the example response is \<^verbatim>\<open>{}\<close> or a
  \<^verbatim>\<open>certificate_update\<close>.
\<close>

theorem buffer_holds_only_updates:
  "(\<forall>p \<in> set (recently_seen (run get_ip evs init)).
      message_type p = Some (JStr ''certificate_update'')) \<and>
   recently_seen (ws_heartbeats_round timestamp st) = recently_seen st \<and>
   (\<exists>messages. body (latest_json_handler (run get_ip evs init)) =
        Json_dumps (JDict [(''messages'', JList messages)]) (Some 4) \<and>
      (\<forall>p \<in> set messages. message_type p = Some (JStr ''certificate_update''))) \<and>
   (body (example_json_handler (run get_ip evs init)) = Literal ''{}'' \<or>
    (\<exists>p. body (example_json_handler (run get_ip evs init)) = Json_dumps p (Some 4) \<and>
       message_type p = Some (JStr ''certificate_update'')))"
proof -
  let ?buf = "recently_seen (run get_ip evs init)"
  have all: "\<forall>p \<in> set ?buf. message_type p = Some (JStr ''certificate_update'')"
    by (auto dest!: recently_seen_updates)
  have "?buf \<noteq> [] \<Longrightarrow> message_type (?buf ! 0) = Some (JStr ''certificate_update'')"
    using all by (cases ?buf) auto
  then have "body (example_json_handler (run get_ip evs init)) = Literal ''{}'' \<or>
    (\<exists>p. body (example_json_handler (run get_ip evs init)) = Json_dumps p (Some 4) \<and>
       message_type p = Some (JStr ''certificate_update''))"
    by (simp add: example_json_handler_def)
  with all show ?thesis
    by (simp add: latest_json_handler_def)
qed

theorem buffer_holds_only_updates_witness:
  "recently_seen (run sample_ip
      [Connect (ws_request None) 1000 None, Beat 10, Feed (JStr ''a''), Beat 20] init) =
     [data_packet (JStr ''a'')] \<and>
   queues (run sample_ip
      [Connect (ws_request None) 1000 None, Beat 10, Feed (JStr ''a''), Beat 20] init) 0 =
     [heartbeat 10, data_packet (JStr ''a''), heartbeat 20] \<and>
   message_type (data_packet (JStr ''a'')) = Some (JStr ''certificate_update'') \<and>
   message_type (heartbeat 10) = Some (JStr ''heartbeat'')"
proof -
  let ?evs = "[Connect (ws_request None) 1000 None, Beat 10, Feed (JStr ''a''), Beat 20]"
  have run: "run sample_ip ?evs init = run sample_ip [Beat 10, Feed (JStr ''a''), Beat 20] one_client"
    by (simp add: one_client_def)
  have buf: "recently_seen (run sample_ip ?evs init) = [data_packet (JStr ''a'')]"
    unfolding run by (simp add: one_client_state deque_append_def maxlen_def)
  have q: "queues (run sample_ip ?evs init) 0 = [heartbeat 10, data_packet (JStr ''a''), heartbeat 20]"
    unfolding run by (simp add: queues_beat queues_mux one_client_state) (simp add: client_a_def)
  have "data_packet (JStr ''a'') \<in> set (recently_seen (run sample_ip ?evs init))"
    unfolding buf by simp
  with buffer_holds_only_updates [of sample_ip ?evs 0 init, THEN conjunct1]
  have "message_type (data_packet (JStr ''a'')) = Some (JStr ''certificate_update'')"
    by (rule bspec)
  moreover have "message_type (heartbeat 10) = Some (JStr ''heartbeat'')"
    by simp
  ultimately show ?thesis
    using buf q by (intro conjI)
qed

section \<open>The statistics endpoint\<close>

text \<open>
  C9. The statistics response reports the length of the registry as
  \<^verbatim>\<open>connected_client_count\<close>. The keys of its \<^verbatim>\<open>clients\<close> dict are the strings
  \<^verbatim>\<open>"<external_ip>-<connection_time>"\<close> of the registered tuples, each key once. So the
  dict never has more entries than the count, and it has fewer as soon as two registered
  tuples share address and connection time.
\<close>

theorem stats_identifier_collision:
  "body (stats_handler pretty_date st) =
     Json_dumps (JDict [(''connected_client_count'', JInt (int (length (active_sockets st)))),
                        (''clients'', JDict (stats_clients pretty_date (active_sockets st)))])
                (Some 4) \<and>
   fst ` set (stats_clients pretty_date (active_sockets st)) =
     (\<lambda>c. external_ip c @ ''-'' @ str_int (connection_time c)) ` set (active_sockets st) \<and>
   distinct (map fst (stats_clients pretty_date (active_sockets st))) \<and>
   length (stats_clients pretty_date (active_sockets st)) \<le> length (active_sockets st) \<and>
   ((\<exists>i j. i < j \<and> j < length (active_sockets st) \<and>
        external_ip (active_sockets st ! i) = external_ip (active_sockets st ! j) \<and>
        connection_time (active_sockets st ! i) = connection_time (active_sockets st ! j)) \<longrightarrow>
    length (stats_clients pretty_date (active_sockets st)) < length (active_sockets st))"
proof -
  let ?cs = "active_sockets st"
  have ident: "client_identifier ` set ?cs =
      (\<lambda>c. external_ip c @ ''-'' @ str_int (connection_time c)) ` set ?cs"
    by (rule image_cong) (simp_all only: client_identifier_def)
  have le: "card (client_identifier ` set ?cs) \<le> length ?cs"
    by (metis card_length length_map list.set_map)
  have lt: "card (client_identifier ` set ?cs) < length ?cs"
    if "\<exists>i j. i < j \<and> j < length ?cs \<and> external_ip (?cs ! i) = external_ip (?cs ! j) \<and>
          connection_time (?cs ! i) = connection_time (?cs ! j)"
  proof -
    from that obtain i j where ij: "i < j" "j < length ?cs"
      and same: "client_identifier (?cs ! i) = client_identifier (?cs ! j)"
      by (auto simp: client_identifier_def)
    have "\<not> distinct (map client_identifier ?cs)"
    proof
      assume "distinct (map client_identifier ?cs)"
      with ij same have "i = j"
        by (auto simp: distinct_conv_nth)
      with ij show False by simp
    qed
    then have "card (set (map client_identifier ?cs)) \<noteq> length (map client_identifier ?cs)"
      using card_distinct by blast
    with le show ?thesis by simp
  qed
  have keys: "fst ` set (stats_clients pretty_date ?cs) =
      (\<lambda>c. external_ip c @ ''-'' @ str_int (connection_time c)) ` set ?cs"
    using stats_clients_keys(2) [of pretty_date ?cs] ident by (rule trans)
  have body: "body (stats_handler pretty_date st) =
     Json_dumps (JDict [(''connected_client_count'', JInt (int (length ?cs))),
                        (''clients'', JDict (stats_clients pretty_date ?cs))]) (Some 4)"
    by (simp add: stats_handler_def)
  have len_le: "length (stats_clients pretty_date ?cs) \<le> length ?cs"
    using le by (simp add: length_stats_clients)
  have len_lt: "(\<exists>i j. i < j \<and> j < length ?cs \<and> external_ip (?cs ! i) = external_ip (?cs ! j) \<and>
          connection_time (?cs ! i) = connection_time (?cs ! j)) \<longrightarrow>
      length (stats_clients pretty_date ?cs) < length ?cs"
    using lt by (simp add: length_stats_clients)
  from body keys stats_clients_keys(1) [of pretty_date ?cs] len_le len_lt
  show ?thesis by (intro conjI)
qed

theorem stats_identifier_collision_witness:
  "active_sockets two_clients = [client_a, client_b] \<and>
   (\<exists>i j. i < j \<and> j < length (active_sockets two_clients) \<and>
        external_ip (active_sockets two_clients ! i) = external_ip (active_sockets two_clients ! j) \<and>
        connection_time (active_sockets two_clients ! i) =
          connection_time (active_sockets two_clients ! j)) \<and>
   body (stats_handler (\<lambda>_. ''just now'') two_clients) =
     Json_dumps (JDict [(''connected_client_count'', JInt 2),
        (''clients'', JDict [(''10.0.0.1-1000'',
            JDict [(''ip_address'', JStr ''10.0.0.1''),
                   (''conection_time'', JInt 1000),
                   (''connection_length'', JStr ''just now''),
                   (''channel'', JStr ''dns-only'')])])]) (Some 4) \<and>
   fst ` set (stats_clients (\<lambda>_. ''just now'') (active_sockets two_clients)) = {''10.0.0.1-1000''} \<and>
   length (stats_clients (\<lambda>_. ''just now'') (active_sockets two_clients)) < 2"
proof -
  have reg: "active_sockets two_clients = [client_a, client_b]"
    by (simp add: two_clients_state)
  have "0 < (1::nat) \<and> 1 < length (active_sockets two_clients) \<and>
      external_ip (active_sockets two_clients ! 0) = external_ip (active_sockets two_clients ! 1) \<and>
      connection_time (active_sockets two_clients ! 0) =
        connection_time (active_sockets two_clients ! 1)"
    unfolding reg by (simp add: client_a_def client_b_def)
  then have same: "\<exists>i j. i < j \<and> j < length (active_sockets two_clients) \<and>
        external_ip (active_sockets two_clients ! i) = external_ip (active_sockets two_clients ! j) \<and>
        connection_time (active_sockets two_clients ! i) =
          connection_time (active_sockets two_clients ! j)"
    by blast
  have key: "''10.0.0.1'' @ ''-'' @ str_int 1000 = ''10.0.0.1-1000''"
    by code_simp
  note stats = stats_identifier_collision [of "\<lambda>_. ''just now''" two_clients]
  from stats same
  have less: "length (stats_clients (\<lambda>_. ''just now'') (active_sockets two_clients)) <
      length (active_sockets two_clients)"
    by blast
  have keys: "fst ` set (stats_clients (\<lambda>_. ''just now'') (active_sockets two_clients)) =
      {''10.0.0.1-1000''}"
    using stats [THEN conjunct2, THEN conjunct1] key
    by (simp add: reg client_a_def client_b_def)
  have body: "body (stats_handler (\<lambda>_. ''just now'') two_clients) =
     Json_dumps (JDict [(''connected_client_count'', JInt 2),
        (''clients'', JDict [(''10.0.0.1-1000'',
            JDict [(''ip_address'', JStr ''10.0.0.1''),
                   (''conection_time'', JInt 1000),
                   (''connection_length'', JStr ''just now''),
                   (''channel'', JStr ''dns-only'')])])]) (Some 4)"
    using stats [THEN conjunct1] by (simp add: reg stats_two_clients)
  from reg same body keys less show ?thesis
    by (simp only: reg list.size) simp
qed

section \<open>Heartbeats\<close>

text \<open>
  C6, as stated, fails in its scenario. One client is connected, no record arrives, 25
  units go by. The handler of the client waits in \<^verbatim>\<open>get()\<close>; it runs while the generator
  sleeps, takes each heartbeat off the queue and writes it. After 25 units the queue
  holds nothing, and the two heartbeats are on the websocket.
\<close>

theorem queue_holds_two_counterexample:
  "active_sockets one_client = [client_a] \<and>
   fed (handler_runs 0 @ handler_runs 10 @ handler_runs 20) = [] \<and>
   queues (ws_heartbeats sample_ip handler_runs 25 0 one_client) (queue client_a) = [] \<and>
   sockets (ws_heartbeats sample_ip handler_runs 25 0 one_client) (queue client_a) =
     [Send_str (Json_dumps (JDict [(''message_type'', JStr ''heartbeat''),
                                   (''timestamp'', JFloat 10)]) None),
      Send_str (Json_dumps (JDict [(''message_type'', JStr ''heartbeat''),
                                   (''timestamp'', JFloat 20)]) None)]"
proof -
  have reg: "client_a \<in> set (active_sockets one_client)"
    by (simp add: one_client_state)
  have q: "queue client_a = 0"
    by (simp add: client_a_def)
  have run: "ws_heartbeats sample_ip handler_runs 25 0 one_client =
      step sample_ip (Deliver client_a) (ws_heartbeats_round 20
        (step sample_ip (Deliver client_a) (ws_heartbeats_round 10
          (step sample_ip (Deliver client_a) one_client))))"
    by (simp add: ws_heartbeats.simps [of _ _ 25] handler_runs_def)
  show ?thesis
    unfolding run
    by (simp add: one_client_state root_handler_round_def queues_beat handler_runs_def
        heartbeat_def q)
qed

text \<open>
  C6, amended. Time is a virtual clock: \<^verbatim>\<open>asyncio.sleep(10)\<close> takes exactly 10 units
  and a round of the generator takes none; the other tasks run during the sleeps. Each
  round puts one packet tagged \<^verbatim>\<open>heartbeat\<close> that carries the clock reading on the queue
  of every registered tuple, whatever else the server holds. From the time \<open>now\<close> to the
  time \<open>horizon\<close>, whatever the other tasks do meanwhile (records may arrive or not,
  clients may come and go, the handlers may write; they make no heartbeats, which only
  the generator does) as long as the handler of \<open>c\<close> is not stopped, the heartbeats
  written to the websocket of \<open>c\<close> followed by those still on its queue grow by the
  heartbeats of the times \<open>now + 10\<close>, \<open>now + 20\<close>, ... up to \<open>horizon\<close>, one for each
  full 10 units. They are all still on the queue when no other
  task has run. With one client connected and 25 units gone these are the heartbeats of
  the times 10 and 20.
\<close>

theorem heartbeat_every_ten_units:
  assumes "wf_server st" and "c \<in> set (active_sockets st)"
    and "\<forall>now. \<forall>ev \<in> set (others now).
      (\<forall>timestamp. ev \<noteq> Beat timestamp) \<and> (\<forall>raised close_raises. ev \<noteq> Stop c raised close_raises)"
  shows "queues (ws_heartbeats_round timestamp st) (queue c) =
           queues st (queue c) @
           [JDict [(''message_type'', JStr ''heartbeat''), (''timestamp'', JFloat timestamp)]] \<and>
         filter is_heartbeat
           (sent_packets (sockets (ws_heartbeats get_ip others horizon now st) (queue c)) @
            queues (ws_heartbeats get_ip others horizon now st) (queue c)) =
           filter is_heartbeat (sent_packets (sockets st (queue c)) @ queues st (queue c)) @
           map (\<lambda>k. JDict [(''message_type'', JStr ''heartbeat''),
                           (''timestamp'', JFloat (now + 10 * of_nat (Suc k)))])
             [0..<nat \<lfloor>(horizon - now) / 10\<rfloor>] \<and>
         queues (ws_heartbeats get_ip (\<lambda>_. []) horizon now st) (queue c) =
           queues st (queue c) @
           map (\<lambda>k. JDict [(''message_type'', JStr ''heartbeat''),
                           (''timestamp'', JFloat (now + 10 * of_nat (Suc k)))])
             [0..<nat \<lfloor>(horizon - now) / 10\<rfloor>]"
proof (intro conjI)
  show "queues (ws_heartbeats_round timestamp st) (queue c) =
      queues st (queue c) @
      [JDict [(''message_type'', JStr ''heartbeat''), (''timestamp'', JFloat timestamp)]]"
    using assms(1,2) by (simp add: queues_beat wf_server_def heartbeat_def)
next
  show "filter is_heartbeat
      (sent_packets (sockets (ws_heartbeats get_ip others horizon now st) (queue c)) @
       queues (ws_heartbeats get_ip others horizon now st) (queue c)) =
      filter is_heartbeat (sent_packets (sockets st (queue c)) @ queues st (queue c)) @
      map (\<lambda>k. JDict [(''message_type'', JStr ''heartbeat''),
                      (''timestamp'', JFloat (now + 10 * of_nat (Suc k)))])
        [0..<nat \<lfloor>(horizon - now) / 10\<rfloor>]"
    using heartbeats_ws_heartbeats [OF assms(3,1,2), of get_ip horizon now]
    by (simp only: heartbeat_def)
next
  show "queues (ws_heartbeats get_ip (\<lambda>_. []) horizon now st) (queue c) =
      queues st (queue c) @
      map (\<lambda>k. JDict [(''message_type'', JStr ''heartbeat''),
                      (''timestamp'', JFloat (now + 10 * of_nat (Suc k)))])
        [0..<nat \<lfloor>(horizon - now) / 10\<rfloor>]"
    using queues_ws_heartbeats_alone [OF assms(1,2), of get_ip horizon now]
    by (simp only: heartbeat_def)
qed

theorem heartbeat_every_ten_units_witness:
  "wf_server one_client \<and> client_a \<in> set (active_sockets one_client) \<and>
   queues one_client (queue client_a) = [] \<and> sockets one_client (queue client_a) = [] \<and>
   filter is_heartbeat
     (sent_packets (sockets (ws_heartbeats sample_ip handler_runs 25 0 one_client) (queue client_a)) @
      queues (ws_heartbeats sample_ip handler_runs 25 0 one_client) (queue client_a)) =
     [JDict [(''message_type'', JStr ''heartbeat''), (''timestamp'', JFloat 10)],
      JDict [(''message_type'', JStr ''heartbeat''), (''timestamp'', JFloat 20)]] \<and>
   queues (ws_heartbeats sample_ip (\<lambda>_. []) 25 0 one_client) (queue client_a) =
     [JDict [(''message_type'', JStr ''heartbeat''), (''timestamp'', JFloat 10)],
      JDict [(''message_type'', JStr ''heartbeat''), (''timestamp'', JFloat 20)]]"
proof -
  have reg: "client_a \<in> set (active_sockets one_client)"
    and q: "queues one_client (queue client_a) = []"
    and s: "sockets one_client (queue client_a) = []"
    by (simp_all add: one_client_state)
  have quiet: "\<forall>now. \<forall>ev \<in> set (handler_runs now).
      (\<forall>timestamp. ev \<noteq> Beat timestamp) \<and>
      (\<forall>raised close_raises. ev \<noteq> Stop client_a raised close_raises)"
    by (simp add: handler_runs_def)
  have n: "nat \<lfloor>(25 - 0 :: rat) / 10\<rfloor> = 2"
    by code_simp
  have l: "[0..<2] = [0, Suc 0]"
    by (simp add: numeral_2_eq_2)
  note beats = heartbeat_every_ten_units [OF wf_server_one_client reg quiet,
      of 0 sample_ip 25 0, unfolded n l q s]
  from beats [THEN conjunct2, THEN conjunct1] beats [THEN conjunct2, THEN conjunct2]
  have "filter is_heartbeat
     (sent_packets (sockets (ws_heartbeats sample_ip handler_runs 25 0 one_client) (queue client_a)) @
      queues (ws_heartbeats sample_ip handler_runs 25 0 one_client) (queue client_a)) =
     [JDict [(''message_type'', JStr ''heartbeat''), (''timestamp'', JFloat 10)],
      JDict [(''message_type'', JStr ''heartbeat''), (''timestamp'', JFloat 20)]]"
    and "queues (ws_heartbeats sample_ip (\<lambda>_. []) 25 0 one_client) (queue client_a) =
     [JDict [(''message_type'', JStr ''heartbeat''), (''timestamp'', JFloat 10)],
      JDict [(''message_type'', JStr ''heartbeat''), (''timestamp'', JFloat 20)]]"
    by simp_all
  with wf_server_one_client reg q s show ?thesis
    by (intro conjI)
qed

section \<open>Iterating the registry\<close>



end
